theory Spec2Isabelle
  imports Main
begin

section \<open>Errors\<close>

text \<open>
  The C++ of \<^verbatim>\<open>ChatMessage.cpp\<close> works on raw character arrays. Every way in which an
  array access can leave its array, read a byte that was never written, or produce an
  integer that the result type cannot hold is a value of \<open>error\<close>, and a function that
  can do so returns \<open>error + 'a\<close> with \<open>Inl\<close> for the error.
\<close>

datatype error =
    BufferOverrun
  | SourceOverrun
  | IndeterminateValue
  | NotRepresentable
  | NoPendingWrite
  | EmptyQueue

section \<open>ChatMessage\<close>

text \<open>
  Modelled from the spec: the constant \<^verbatim>\<open>header_length\<close> is declared in
  \<^verbatim>\<open>ChatMessage.hpp\<close>, which is not among the sources. The spec gives 4 bytes for it, and
  \<^verbatim>\<open>encode_header\<close> formats the field with \<^verbatim>\<open>"%4d"\<close>.
\<close>

definition header_length :: nat where
  "header_length = 4"

text \<open>
  The constant \<^verbatim>\<open>max_body_length\<close> is declared in the same absent header and the spec gives
  no value for it, so every function that reads it takes it as its first argument
  \<open>max_body_length\<close>.

  A message has the two members the source file uses: the character array \<^verbatim>\<open>data_\<close> and the
  \<^verbatim>\<open>std::size_t\<close> \<^verbatim>\<open>body_length_\<close> (the fields are \<open>data_m\<close> and \<open>body_length_m\<close>, since a
  name cannot end in an underscore). An array element is \<open>None\<close> while it is
  indeterminate, that is until something has been stored in it, and \<open>Some c\<close> afterwards.
  \<^verbatim>\<open>std::size_t\<close> is taken to be 64 bits wide and \<^verbatim>\<open>int\<close> 32 bits wide; the two conversions
  between them are written out below.
\<close>

record ChatMessage =
  data_m :: "char option list"
  body_length_m :: nat

text \<open>
  Modelled from the spec: the declaration of \<^verbatim>\<open>data_\<close> is in the absent header; following
  the spec's data model (a fixed header and a body of at most \<^verbatim>\<open>max_body_length\<close> bytes)
  the array has \<^verbatim>\<open>header_length + max_body_length\<close> elements. No constructor of
  \<^verbatim>\<open>ChatMessage.cpp\<close> names \<^verbatim>\<open>data_\<close> in its initialiser list, so a new message starts with
  every element indeterminate.
\<close>

definition ChatMessage_default :: "nat \<Rightarrow> ChatMessage" where
  "ChatMessage_default max_body_length =
     \<lparr>data_m = replicate (header_length + max_body_length) None, body_length_m = 0\<rparr>"

text \<open>
  The copy constructor initialises \<^verbatim>\<open>body_length_\<close> from the other message and nothing
  else: the array of the copy (of the same extent as the other's) is left as it is created.
\<close>

definition ChatMessage_copy :: "ChatMessage \<Rightarrow> ChatMessage" where
  "ChatMessage_copy otherMessage =
     \<lparr>data_m = replicate (length (data_m otherMessage)) None,
      body_length_m = body_length_m otherMessage\<rparr>"

text \<open>
  \<^verbatim>\<open>set_data\<close>: the loop \<^verbatim>\<open>for (int i = 0; i < size; i++) data_[i] = data[i];\<close>. The argument
  array is \<open>src\<close>; reading it beyond its end and writing \<^verbatim>\<open>data_\<close> beyond its end are the two
  errors.
\<close>

function set_data_loop ::
  "string \<Rightarrow> int \<Rightarrow> nat \<Rightarrow> char option list \<Rightarrow> error + char option list" where
  "set_data_loop src sz i buf =
     (if int i < sz then
        (if length src \<le> i then Inl SourceOverrun
         else if length buf \<le> i then Inl BufferOverrun
         else set_data_loop src sz (Suc i) (buf[i := Some (src ! i)]))
      else Inr buf)"
  by pat_completeness auto
termination
  by (relation "measure (\<lambda>(src, sz, i, buf). nat (sz - int i))") auto

declare set_data_loop.simps [simp del]

definition set_data :: "ChatMessage \<Rightarrow> string \<Rightarrow> int \<Rightarrow> error + ChatMessage" where
  "set_data m src sz =
     (case set_data_loop src sz 0 (data_m m) of
        Inl e \<Rightarrow> Inl e
      | Inr buf \<Rightarrow> Inr (m\<lparr>data_m := buf\<rparr>))"

text \<open>\<^verbatim>\<open>body()\<close> is the address \<^verbatim>\<open>data_ + header_length\<close>: the array from that element on.\<close>

definition body :: "ChatMessage \<Rightarrow> char option list" where
  "body m = drop header_length (data_m m)"

definition body_length :: "ChatMessage \<Rightarrow> nat" where
  "body_length m = body_length_m m"

text \<open>The mutator \<^verbatim>\<open>body_length(std::size_t new_length)\<close>.\<close>

definition body_length_set :: "nat \<Rightarrow> nat \<Rightarrow> ChatMessage \<Rightarrow> ChatMessage" where
  "body_length_set max_body_length new_length m =
     (let m1 = m\<lparr>body_length_m := new_length\<rparr>
      in if body_length_m m1 > max_body_length
         then m1\<lparr>body_length_m := max_body_length\<rparr>
         else m1)"

subsection \<open>The C library functions the codec calls\<close>

definition NUL :: char where
  "NUL = CHR 0x00"

definition isspace :: "char \<Rightarrow> bool" where
  "isspace c = (c = CHR '' '' \<or> (9 \<le> (of_char c :: nat) \<and> (of_char c :: nat) \<le> 13))"

definition isdigit :: "char \<Rightarrow> bool" where
  "isdigit c = (48 \<le> (of_char c :: nat) \<and> (of_char c :: nat) \<le> 57)"

text \<open>
  \<^verbatim>\<open>strncat(header, data_, n)\<close> onto the empty string \<^verbatim>\<open>header\<close>: the characters of the
  source up to its first NUL, at most \<open>n\<close> of them. The destination holds
  \<^verbatim>\<open>header_length + 1\<close> characters, which is room for \<open>n = header_length\<close> of them and the
  terminator.
\<close>

fun strncat_read :: "nat \<Rightarrow> char option list \<Rightarrow> error + string" where
  "strncat_read 0 src = Inr []"
| "strncat_read (Suc n) [] = Inl SourceOverrun"
| "strncat_read (Suc n) (None # src) = Inl IndeterminateValue"
| "strncat_read (Suc n) (Some c # src) =
     (if c = NUL then Inr []
      else case strncat_read n src of Inl e \<Rightarrow> Inl e | Inr s \<Rightarrow> Inr (c # s))"

text \<open>
  \<^verbatim>\<open>atoi\<close>: leading white space is skipped, one sign is accepted, and the decimal digits
  that follow are the value (0 when there is none). A value that \<^verbatim>\<open>int\<close> cannot hold is
  undefined behaviour in C.
\<close>

fun digits_value :: "int \<Rightarrow> string \<Rightarrow> int" where
  "digits_value acc [] = acc"
| "digits_value acc (c # cs) =
     (if isdigit c then digits_value (acc * 10 + (int (of_char c) - 48)) cs else acc)"

definition atoi :: "string \<Rightarrow> error + int" where
  "atoi s =
     (let t = dropWhile isspace s;
          v = (case t of
                 [] \<Rightarrow> 0
               | c # cs \<Rightarrow>
                   if c = CHR ''-'' then - digits_value 0 cs
                   else if c = CHR ''+'' then digits_value 0 cs
                   else digits_value 0 t)
      in if - (2 ^ 31) \<le> v \<and> v < 2 ^ 31 then Inr v else Inl NotRepresentable)"

text \<open>The conversion of an \<^verbatim>\<open>int\<close> to \<^verbatim>\<open>std::size_t\<close> is modulo \<open>2 ^ 64\<close>.\<close>

definition size_t_of_int :: "int \<Rightarrow> nat" where
  "size_t_of_int v = nat (v mod 2 ^ 64)"

text \<open>\<^verbatim>\<open>static_cast<int>\<close> of a \<^verbatim>\<open>std::size_t\<close> keeps the low 32 bits, read as two's complement.\<close>

definition int_of_size_t :: "nat \<Rightarrow> int" where
  "int_of_size_t n =
     (let r = int n mod 2 ^ 32 in if r < 2 ^ 31 then r else r - 2 ^ 32)"

text \<open>
  \<^verbatim>\<open>sprintf(header, "%4d", v)\<close>: the decimal digits of \<open>v\<close>, a minus sign before them when
  \<open>v\<close> is negative, padded on the left with spaces to at least four characters.
\<close>

fun dec_nat :: "nat \<Rightarrow> string" where
  "dec_nat n =
     (if n < 10 then [char_of (48 + n)]
      else dec_nat (n div 10) @ [char_of (48 + n mod 10)])"

declare dec_nat.simps [simp del]

definition sprintf_4d :: "int \<Rightarrow> string" where
  "sprintf_4d v =
     (let s = (if v < 0 then CHR ''-'' # dec_nat (nat (- v)) else dec_nat (nat v))
      in replicate (4 - length s) CHR '' '' @ s)"

subsection \<open>The header codec\<close>

text \<open>
  \<^verbatim>\<open>decode_header\<close> returns the \<^verbatim>\<open>bool\<close> of the source together with the message as the
  call leaves it.
\<close>

definition decode_header :: "nat \<Rightarrow> ChatMessage \<Rightarrow> error + (bool \<times> ChatMessage)" where
  "decode_header max_body_length m =
     (case strncat_read header_length (data_m m) of
        Inl e \<Rightarrow> Inl e
      | Inr header \<Rightarrow>
          (case atoi header of
             Inl e \<Rightarrow> Inl e
           | Inr v \<Rightarrow>
               (let m1 = m\<lparr>body_length_m := size_t_of_int v\<rparr>
                in if body_length_m m1 > max_body_length
                   then Inr (False, m1\<lparr>body_length_m := 0\<rparr>)
                   else Inr (True, m1))))"

text \<open>
  \<^verbatim>\<open>encode_header\<close>: \<^verbatim>\<open>sprintf\<close> stores its characters and a terminating NUL in the
  zero-initialised \<^verbatim>\<open>header[header_length + 1]\<close>, which overruns when there are more than
  \<^verbatim>\<open>header_length\<close> characters; \<^verbatim>\<open>memcpy\<close> then stores the first \<^verbatim>\<open>header_length\<close> bytes of
  \<^verbatim>\<open>header\<close> at the start of \<^verbatim>\<open>data_\<close>.
\<close>

definition encode_header :: "ChatMessage \<Rightarrow> error + ChatMessage" where
  "encode_header m =
     (let s = sprintf_4d (int_of_size_t (body_length_m m))
      in if header_length + 1 < length s + 1 then Inl BufferOverrun
         else
           (let header = s @ replicate (header_length + 1 - length s) NUL
            in if length (data_m m) < header_length then Inl BufferOverrun
               else Inr (m\<lparr>data_m := map Some (take header_length header)
                                     @ drop header_length (data_m m)\<rparr>)))"

section \<open>ChatSession\<close>

text \<open>
  A participant is a \<^verbatim>\<open>std::shared_ptr<ChatParticipant>\<close>; the room's \<^verbatim>\<open>std::set\<close> keys and orders
  them by the address they hold, which is a number here. \<^verbatim>\<open>ChatSession\<close> is the one class
  that implements \<^verbatim>\<open>ChatParticipant\<close>.
\<close>

type_synonym participant = nat

text \<open>
  Of a session the write side is modelled: the queue \<^verbatim>\<open>write_msgs_\<close>, and of \<^verbatim>\<open>socket_\<close>
  whether an \<^verbatim>\<open>async_write\<close> is outstanding (\<open>write_pending\<close>) and the messages whose
  \<^verbatim>\<open>async_write\<close> has completed without error, in the order of completion
  (\<open>socket_written\<close>).
\<close>

record ChatSession =
  write_msgs_m :: "ChatMessage list"
  write_pending :: bool
  socket_written :: "ChatMessage list"

definition ChatSession_new :: ChatSession where
  "ChatSession_new = \<lparr>write_msgs_m = [], write_pending = False, socket_written = []\<rparr>"

text \<open>
  \<^verbatim>\<open>do_write\<close> starts an \<^verbatim>\<open>async_write\<close> of the front of the queue and returns; the completion
  handler it passes is \<open>do_write_handler\<close> below. Both callers call it with a queue that is
  not empty.
\<close>

definition do_write :: "ChatSession \<Rightarrow> ChatSession" where
  "do_write s = s\<lparr>write_pending := True\<rparr>"

text \<open>\<^verbatim>\<open>ChatSession::deliver\<close>; \<^verbatim>\<open>push_back\<close> copy-constructs the element it appends.\<close>

definition ChatSession_deliver :: "ChatMessage \<Rightarrow> ChatSession \<Rightarrow> ChatSession" where
  "ChatSession_deliver msg s =
     (let write_in_progress = (write_msgs_m s \<noteq> []);
          s1 = s\<lparr>write_msgs_m := write_msgs_m s @ [ChatMessage_copy msg]\<rparr>
      in if \<not> write_in_progress then do_write s1 else s1)"

section \<open>ChatRoom\<close>

definition max_recent_msgs :: nat where
  "max_recent_msgs = 100"

text \<open>
  \<^verbatim>\<open>participants_\<close> is the \<^verbatim>\<open>std::set\<close> as the list of its elements in ascending order, which
  is the order a range-for visits them in; \<^verbatim>\<open>recent_msgs_\<close> is the deque, front first.
\<close>

record ChatRoom =
  participants_m :: "participant list"
  recent_msgs_m :: "ChatMessage list"

text \<open>
  The state the room's functions work on: the room itself and the session each participant
  pointer refers to.
\<close>

record World =
  room_m :: ChatRoom
  sessions :: "participant \<Rightarrow> ChatSession"

definition World_init :: World where
  "World_init =
     \<lparr>room_m = \<lparr>participants_m = [], recent_msgs_m = []\<rparr>,
      sessions = (\<lambda>p. ChatSession_new)\<rparr>"

text \<open>\<^verbatim>\<open>std::set::insert\<close> and \<^verbatim>\<open>std::set::erase\<close> by key.\<close>

definition set_insert :: "participant \<Rightarrow> participant list \<Rightarrow> participant list" where
  "set_insert p ps = (if p \<in> set ps then ps else insort p ps)"

definition set_erase :: "participant \<Rightarrow> participant list \<Rightarrow> participant list" where
  "set_erase p ps = removeAll p ps"

text \<open>
  The list stands for a \<^verbatim>\<open>std::set\<close> when it is ascending and has no element twice; the
  empty set is, and \<open>set_insert\<close> and \<open>set_erase\<close> keep it so.
\<close>

definition room_ok :: "World \<Rightarrow> bool" where
  "room_ok w = (sorted (participants_m (room_m w)) \<and> distinct (participants_m (room_m w)))"

text \<open>The virtual call \<^verbatim>\<open>participant->deliver(msg)\<close>.\<close>

definition participant_deliver :: "participant \<Rightarrow> ChatMessage \<Rightarrow> World \<Rightarrow> World" where
  "participant_deliver p msg w =
     w\<lparr>sessions := (sessions w)(p := ChatSession_deliver msg (sessions w p))\<rparr>"

text \<open>
  \<^verbatim>\<open>ChatRoom::join\<close>; the loop variable of \<^verbatim>\<open>for (auto msg : recent_msgs_)\<close> is a copy of the
  element.
\<close>

definition ChatRoom_join :: "participant \<Rightarrow> World \<Rightarrow> World" where
  "ChatRoom_join p w =
     (let r = room_m w;
          w1 = w\<lparr>room_m := r\<lparr>participants_m := set_insert p (participants_m r)\<rparr>\<rparr>
      in fold (\<lambda>msg. participant_deliver p (ChatMessage_copy msg)) (recent_msgs_m r) w1)"

definition ChatRoom_leave :: "participant \<Rightarrow> World \<Rightarrow> World" where
  "ChatRoom_leave p w =
     w\<lparr>room_m := (room_m w)\<lparr>participants_m := set_erase p (participants_m (room_m w))\<rparr>\<rparr>"

text \<open>The loop \<^verbatim>\<open>while (recent_msgs_.size() > max_recent_msgs) recent_msgs_.pop_front();\<close>.\<close>

function pop_excess :: "ChatMessage list \<Rightarrow> ChatMessage list" where
  "pop_excess msgs =
     (if length msgs > max_recent_msgs then pop_excess (tl msgs) else msgs)"
  by pat_completeness auto
termination
  by (relation "measure length") (auto simp: max_recent_msgs_def)

declare pop_excess.simps [simp del]

definition ChatRoom_deliver :: "ChatMessage \<Rightarrow> World \<Rightarrow> World" where
  "ChatRoom_deliver msg w =
     (let r = room_m w;
          r1 = r\<lparr>recent_msgs_m := pop_excess (recent_msgs_m r @ [ChatMessage_copy msg])\<rparr>;
          w1 = w\<lparr>room_m := r1\<rparr>
      in fold (\<lambda>p. participant_deliver p msg) (participants_m r1) w1)"

text \<open>
  The completion handler of \<^verbatim>\<open>do_write\<close>, run for participant \<open>p\<close> with the error code \<open>ec\<close>
  (\<open>True\<close> for an error). It runs only for an \<^verbatim>\<open>async_write\<close> that is outstanding.
\<close>

definition do_write_handler :: "participant \<Rightarrow> bool \<Rightarrow> World \<Rightarrow> error + World" where
  "do_write_handler p ec w =
     (let s = sessions w p
      in if \<not> write_pending s then Inl NoPendingWrite
         else
           (let s0 = s\<lparr>write_pending := False\<rparr>
            in if \<not> ec then
                 (case write_msgs_m s0 of
                    [] \<Rightarrow> Inl EmptyQueue
                  | m # rest \<Rightarrow>
                      (let s1 = s0\<lparr>write_msgs_m := rest,
                                   socket_written := socket_written s0 @ [m]\<rparr>;
                           s2 = (if write_msgs_m s1 \<noteq> [] then do_write s1 else s1)
                       in Inr (w\<lparr>sessions := (sessions w)(p := s2)\<rparr>)))
               else Inr (ChatRoom_leave p (w\<lparr>sessions := (sessions w)(p := s0)\<rparr>))))"

subsection \<open>Sequences of calls and events\<close>

text \<open>
  The three public functions of the room, called one after the other, and the events of
  the single-threaded reactor: a call to the room, or the completion of a write.
\<close>

datatype room_call = Join participant | Leave participant | Deliver ChatMessage

fun call :: "room_call \<Rightarrow> World \<Rightarrow> World" where
  "call (Join p) w = ChatRoom_join p w"
| "call (Leave p) w = ChatRoom_leave p w"
| "call (Deliver msg) w = ChatRoom_deliver msg w"

definition calls :: "room_call list \<Rightarrow> World \<Rightarrow> World" where
  "calls cs w = fold call cs w"

fun delivered :: "room_call list \<Rightarrow> ChatMessage list" where
  "delivered [] = []"
| "delivered (Deliver msg # cs) = msg # delivered cs"
| "delivered (c # cs) = delivered cs"

datatype event = Call room_call | WriteDone participant bool

fun step :: "event \<Rightarrow> World \<Rightarrow> error + World" where
  "step (Call c) w = Inr (call c w)"
| "step (WriteDone p ec) w = do_write_handler p ec w"

fun run :: "event list \<Rightarrow> World \<Rightarrow> error + World" where
  "run [] w = Inr w"
| "run (e # es) w = (case step e w of Inl x \<Rightarrow> Inl x | Inr w' \<Rightarrow> run es w')"

fun room_calls :: "event list \<Rightarrow> room_call list" where
  "room_calls [] = []"
| "room_calls (Call c # es) = c # room_calls es"
| "room_calls (e # es) = room_calls es"

section \<open>Lemmas about the codec\<close>

lemma isdigit_not: "isdigit c \<Longrightarrow> \<not> isspace c \<and> c \<noteq> CHR ''-'' \<and> c \<noteq> CHR ''+'' \<and> c \<noteq> NUL"
  by (auto simp: isdigit_def isspace_def NUL_def)

lemma isdigit_digit: "d < 10 \<Longrightarrow> isdigit (char_of (48 + d :: nat))"
  by (simp add: isdigit_def)

lemma of_char_digit: "d < 10 \<Longrightarrow> (of_char (char_of (48 + d :: nat)) :: nat) = 48 + d"
  by simp

lemma dec_nat_digits: "c \<in> set (dec_nat n) \<Longrightarrow> isdigit c"
proof (induction n arbitrary: c rule: dec_nat.induct)
  case (1 n)
  show ?case
  proof (cases "n < 10")
    case True
    with "1.prems" show ?thesis
      by (simp add: dec_nat.simps [of n] isdigit_digit)
  next
    case False
    with "1.prems" "1.IH" show ?thesis
      by (auto simp: dec_nat.simps [of n] isdigit_digit)
  qed
qed

lemma dec_nat_nonempty: "dec_nat n \<noteq> []"
  by (simp add: dec_nat.simps [of n])

lemma digits_value_append:
  "\<forall>c \<in> set xs. isdigit c \<Longrightarrow> digits_value acc (xs @ ys) = digits_value (digits_value acc xs) ys"
  by (induction xs arbitrary: acc) auto

lemma digits_value_dec_nat: "digits_value 0 (dec_nat n) = int n"
proof (induction n rule: dec_nat.induct)
  case (1 n)
  show ?case
  proof (cases "n < 10")
    case True
    then show ?thesis
      by (simp add: dec_nat.simps [of n] isdigit_digit of_char_digit)
  next
    case False
    then have "digits_value 0 (dec_nat n) =
        digits_value (digits_value 0 (dec_nat (n div 10))) [char_of (48 + n mod 10)]"
      by (simp add: dec_nat.simps [of n] digits_value_append dec_nat_digits)
    also have "\<dots> = int (n div 10) * 10 + int (n mod 10)"
      using False "1.IH" by (simp add: isdigit_digit of_char_digit)
    also have "\<dots> = int n"
      by (simp add: zmod_int zdiv_int)
    finally show ?thesis .
  qed
qed

lemma length_dec_nat: "0 < k \<Longrightarrow> n < 10 ^ k \<Longrightarrow> length (dec_nat n) \<le> k"
proof (induction n arbitrary: k rule: dec_nat.induct)
  case (1 n)
  show ?case
  proof (cases "n < 10")
    case True
    with "1.prems" show ?thesis
      by (simp add: dec_nat.simps [of n])
  next
    case False
    with "1.prems" obtain j where k: "k = Suc j" and j: "0 < j"
      by (cases k; cases "k - 1") auto
    from "1.prems" k have "n div 10 < 10 ^ j"
      by (simp add: less_mult_imp_div_less mult.commute)
    with "1.IH" False j have "length (dec_nat (n div 10)) \<le> j"
      by simp
    with False k show ?thesis
      by (simp add: dec_nat.simps [of n])
  qed
qed


lemma strncat_read_full:
  "NUL \<notin> set s \<Longrightarrow> strncat_read (length s) (map Some s @ rest) = Inr s"
  by (induction s) auto

lemma strncat_read_length: "strncat_read n src = Inr h \<Longrightarrow> length h \<le> n"
proof (induction n src arbitrary: h rule: strncat_read.induct)
  case (4 n c src)
  then show ?case
    by (auto split: if_splits sum.splits)
qed auto

lemma digits_value_bound:
  "0 \<le> acc \<Longrightarrow> 0 \<le> digits_value acc cs \<and> digits_value acc cs < (acc + 1) * 10 ^ length cs"
proof (induction cs arbitrary: acc)
  case Nil
  then show ?case by simp
next
  case (Cons c cs)
  show ?case
  proof (cases "isdigit c")
    case False
    define K :: int where "K = 10 ^ length (c # cs)"
    have "1 \<le> K"
      unfolding K_def by (rule one_le_power) simp
    with Cons.prems have "(acc + 1) * 1 \<le> (acc + 1) * K"
      by (intro mult_left_mono) simp_all
    then have "acc < (acc + 1) * K"
      by simp
    with False Cons.prems show ?thesis
      unfolding K_def by simp
  next
    case True
    let ?d = "int (of_char c) - 48"
    from True have d: "0 \<le> ?d" "?d \<le> 9"
      by (auto simp: isdigit_def)
    with Cons.prems have "0 \<le> acc * 10 + ?d" by simp
    from Cons.IH [OF this]
    have ih: "0 \<le> digits_value (acc * 10 + ?d) cs"
      "digits_value (acc * 10 + ?d) cs < (acc * 10 + ?d + 1) * 10 ^ length cs"
      by simp_all
    have "(acc * 10 + ?d + 1) * 10 ^ length cs \<le> ((acc + 1) * 10) * 10 ^ length cs"
      using d by (intro mult_right_mono) simp_all
    with ih(2) have "digits_value (acc * 10 + ?d) cs < ((acc + 1) * 10) * 10 ^ length cs"
      by (rule less_le_trans)
    moreover have "((acc + 1) * 10) * 10 ^ length cs = (acc + 1) * 10 ^ length (c # cs)"
      by simp
    moreover have "digits_value acc (c # cs) = digits_value (acc * 10 + ?d) cs"
      using True by simp
    ultimately show ?thesis
      using ih(1) by (simp only:)
  qed
qed

lemma atoi_range: "atoi s = Inr v \<Longrightarrow> - (2 ^ 31) \<le> v \<and> v < 2 ^ 31"
  by (auto simp: atoi_def Let_def split: if_splits)

lemma atoi_dec_nat:
  assumes "n < 2 ^ 31"
  shows "atoi (replicate k CHR '' '' @ dec_nat n) = Inr (int n)"
proof -
  obtain c cs where ccs: "dec_nat n = c # cs"
    using dec_nat_nonempty [of n] by (cases "dec_nat n") auto
  then have c: "isdigit c"
    using dec_nat_digits [of c n] by simp
  have "dropWhile isspace (replicate k CHR '' '' @ dec_nat n) = dropWhile isspace (dec_nat n)"
    by (rule dropWhile_append2) (simp add: isspace_def)
  also have "\<dots> = dec_nat n"
    using c isdigit_not [of c] by (simp add: ccs)
  finally have dw: "dropWhile isspace (replicate k CHR '' '' @ dec_nat n) = c # cs"
    by (simp add: ccs)
  have "digits_value 0 (c # cs) = int n"
    using digits_value_dec_nat [of n] by (simp add: ccs)
  with assms c isdigit_not [of c] show ?thesis
    unfolding atoi_def dw by (simp del: digits_value.simps)
qed

lemma atoi_header_defined:
  assumes "length h \<le> header_length"
  shows "\<exists>v. atoi h = Inr v"
proof -
  define t where "t = dropWhile isspace h"
  have lt: "length t \<le> 4"
    using assms length_dropWhile_le [of isspace h] by (simp add: t_def header_length_def)
  have b: "0 \<le> digits_value 0 cs \<and> digits_value 0 cs < 10 ^ length cs" for cs
    using digits_value_bound [of 0 cs] by simp
  have p: "(10::int) ^ k \<le> 10 ^ 4" if "k \<le> 4" for k
    using that by (intro power_increasing) simp_all
  show ?thesis
  proof (cases t)
    case Nil
    then show ?thesis
      by (simp add: atoi_def t_def [symmetric])
  next
    case (Cons c cs)
    from lt Cons have "length cs \<le> 4" by simp
    from p [OF this] b [of cs] have cs: "0 \<le> digits_value 0 cs" "digits_value 0 cs < 10000"
      by simp_all
    from p [OF lt] b [of t] have t: "0 \<le> digits_value 0 t" "digits_value 0 t < 10000"
      by simp_all
    from cs t Cons show ?thesis
      unfolding atoi_def t_def [symmetric] by (simp del: digits_value.simps)
  qed
qed


lemma decode_header_value:
  assumes "strncat_read header_length (data_m m) = Inr header"
    and "atoi header = Inr v"
    and "0 \<le> v"
  shows "decode_header max_body_length m =
           (if max_body_length < nat v then Inr (False, m\<lparr>body_length_m := 0\<rparr>)
            else Inr (True, m\<lparr>body_length_m := nat v\<rparr>))"
proof -
  from assms(2) have "v < 2 ^ 31"
    using atoi_range by blast
  with assms(3) have "size_t_of_int v = nat v"
    by (simp add: size_t_of_int_def)
  with assms(1,2) show ?thesis
    by (simp add: decode_header_def Let_def)
qed

lemma decode_header_defined:
  assumes "strncat_read header_length (data_m m) = Inr header"
  shows "\<exists>r. decode_header max_body_length m = Inr r"
proof -
  from assms have "length header \<le> header_length"
    by (rule strncat_read_length)
  then obtain v where "atoi header = Inr v"
    using atoi_header_defined by blast
  with assms show ?thesis
    by (auto simp: decode_header_def Let_def)
qed

lemma length_sprintf_4d:
  assumes "n \<le> 9999"
  shows "sprintf_4d (int n) = replicate (4 - length (dec_nat n)) CHR '' '' @ dec_nat n"
    and "length (sprintf_4d (int n)) = 4"
proof -
  have "n < 10 ^ 4" using assms by simp
  then have "length (dec_nat n) \<le> 4"
    by (intro length_dec_nat) simp_all
  then show "sprintf_4d (int n) = replicate (4 - length (dec_nat n)) CHR '' '' @ dec_nat n"
    and "length (sprintf_4d (int n)) = 4"
    by (simp_all add: sprintf_4d_def Let_def)
qed

lemma set_data_loop_overrun:
  "i \<le> length buf \<Longrightarrow> length buf < length src \<Longrightarrow> int (length buf) < sz \<Longrightarrow>
   set_data_loop src sz i buf = Inl BufferOverrun"
proof (induction "length buf - i" arbitrary: i buf)
  case 0
  then show ?case
    by (simp add: set_data_loop.simps [of src sz i buf])
next
  case (Suc d)
  then have "set_data_loop src sz (Suc i) (buf[i := Some (src ! i)]) = Inl BufferOverrun"
    by (intro Suc.hyps) simp_all
  with Suc.prems Suc.hyps(2) show ?case
    by (simp add: set_data_loop.simps [of src sz i buf])
qed

lemma set_data_loop_within:
  "i \<le> n \<Longrightarrow> n \<le> length src \<Longrightarrow> n \<le> length buf \<Longrightarrow>
   set_data_loop src (int n) i buf = Inr (take i buf @ map Some (take (n - i) (drop i src)) @ drop n buf)"
proof (induction "n - i" arbitrary: i buf)
  case 0
  then have "n = i" by simp
  with 0 show ?case
    by (simp add: set_data_loop.simps [of src "int i" i buf])
next
  case (Suc d)
  from Suc.hyps(2) Suc.prems have i: "i < n" "i < length src" "i < length buf"
    by simp_all
  have step: "set_data_loop src (int n) (Suc i) (buf[i := Some (src ! i)]) =
      Inr (take (Suc i) (buf[i := Some (src ! i)]) @ map Some (take (n - Suc i) (drop (Suc i) src))
           @ drop n (buf[i := Some (src ! i)]))"
    using Suc.hyps(2) Suc.prems i by (intro Suc.hyps) simp_all
  have fore: "take (Suc i) (buf[i := Some (src ! i)]) = take i buf @ [Some (src ! i)]"
    using i by (simp add: take_Suc_conv_app_nth)
  have rear: "drop n (buf[i := Some (src ! i)]) = drop n buf"
    using i by simp
  have "drop i src = src ! i # drop (Suc i) src"
    using i by (simp add: Cons_nth_drop_Suc)
  moreover have "n - i = Suc (n - Suc i)"
    using i by simp
  ultimately have mid: "map Some (take (n - i) (drop i src))
      = Some (src ! i) # map Some (take (n - Suc i) (drop (Suc i) src))"
    by simp
  show ?case
    using i step by (simp add: set_data_loop.simps [of src "int n" i buf] fore rear mid)
qed

lemma set_data_within_capacity:
  assumes "n \<le> length src" and "n \<le> length (data_m m)"
  shows "set_data m src (int n) = Inr (m\<lparr>data_m := map Some (take n src) @ drop n (data_m m)\<rparr>)"
  using set_data_loop_within [of 0 n src "data_m m"] assms by (simp add: set_data_def)

section \<open>Lemmas about the room\<close>

lemma ChatMessage_copy_idem: "ChatMessage_copy (ChatMessage_copy m) = ChatMessage_copy m"
  by (simp add: ChatMessage_copy_def)

lemma body_ChatMessage_copy:
  "body (ChatMessage_copy m) = replicate (length (data_m m) - header_length) None"
  by (simp add: ChatMessage_copy_def body_def)

lemma pop_excess_drop: "pop_excess msgs = drop (length msgs - max_recent_msgs) msgs"
proof (induction msgs rule: pop_excess.induct)
  case (1 msgs)
  show ?case
  proof (cases "length msgs > max_recent_msgs")
    case True
    then obtain x xs where msgs: "msgs = x # xs"
      by (cases msgs) auto
    with True have "Suc (length xs) - max_recent_msgs = Suc (length xs - max_recent_msgs)"
      by simp
    with True "1.IH" msgs show ?thesis
      by (simp add: pop_excess.simps [of "x # xs"])
  next
    case False
    then show ?thesis
      by (simp add: pop_excess.simps [of msgs])
  qed
qed

lemma write_msgs_ChatSession_deliver:
  "write_msgs_m (ChatSession_deliver msg s) = write_msgs_m s @ [ChatMessage_copy msg]"
  by (simp add: ChatSession_deliver_def do_write_def Let_def)

lemma socket_written_ChatSession_deliver:
  "socket_written (ChatSession_deliver msg s) = socket_written s"
  by (simp add: ChatSession_deliver_def do_write_def Let_def)

lemma room_fold_deliver_msgs:
  "room_m (fold (\<lambda>msg. participant_deliver p (f msg)) msgs w) = room_m w"
  by (induction msgs arbitrary: w) (simp_all add: participant_deliver_def)

lemma room_fold_deliver_parts:
  "room_m (fold (\<lambda>p. participant_deliver p msg) ps w) = room_m w"
  by (induction ps arbitrary: w) (simp_all add: participant_deliver_def)

lemma sessions_fold_deliver_msgs:
  "sessions (fold (\<lambda>msg. participant_deliver p (f msg)) msgs w) q =
     (if q = p then fold (\<lambda>msg. ChatSession_deliver (f msg)) msgs (sessions w p)
      else sessions w q)"
  by (induction msgs arbitrary: w) (simp_all add: participant_deliver_def)

lemma sessions_fold_deliver_parts:
  "distinct ps \<Longrightarrow>
   sessions (fold (\<lambda>p. participant_deliver p msg) ps w) q =
     (if q \<in> set ps then ChatSession_deliver msg (sessions w q) else sessions w q)"
  by (induction ps arbitrary: w) (auto simp: participant_deliver_def)

lemma write_msgs_fold_deliver:
  "write_msgs_m (fold (\<lambda>msg. ChatSession_deliver (ChatMessage_copy msg)) msgs s) =
     write_msgs_m s @ map ChatMessage_copy msgs"
  by (induction msgs arbitrary: s)
    (simp_all add: write_msgs_ChatSession_deliver ChatMessage_copy_idem)

lemma socket_written_fold_deliver:
  "socket_written (fold (\<lambda>msg. ChatSession_deliver (f msg)) msgs s) = socket_written s"
  by (induction msgs arbitrary: s) (simp_all add: socket_written_ChatSession_deliver)

lemma distinct_set_insert: "distinct ps \<Longrightarrow> distinct (set_insert p ps)"
  by (simp add: set_insert_def distinct_insort)

lemma sorted_set_insert: "sorted ps \<Longrightarrow> sorted (set_insert p ps)"
  by (simp add: set_insert_def sorted_insort)

lemma set_set_insert: "set (set_insert p ps) = insert p (set ps)"
  by (auto simp: set_insert_def set_insort_key)

lemma distinct_set_erase: "distinct ps \<Longrightarrow> distinct (set_erase p ps)"
  by (simp add: set_erase_def distinct_removeAll)

lemma sorted_set_erase: "sorted ps \<Longrightarrow> sorted (set_erase p ps)"
  by (simp add: set_erase_def removeAll_filter_not_eq sorted_wrt_filter)

lemma set_set_erase: "set (set_erase p ps) = set ps - {p}"
  by (simp add: set_erase_def)

text \<open>What each function of the room does to the room itself.\<close>

lemma room_ChatRoom_join:
  "room_m (ChatRoom_join p w) =
     (room_m w)\<lparr>participants_m := set_insert p (participants_m (room_m w))\<rparr>"
  by (simp add: ChatRoom_join_def Let_def room_fold_deliver_msgs)

lemma room_ChatRoom_leave:
  "room_m (ChatRoom_leave p w) =
     (room_m w)\<lparr>participants_m := set_erase p (participants_m (room_m w))\<rparr>"
  by (simp add: ChatRoom_leave_def)

lemma room_ChatRoom_deliver:
  "room_m (ChatRoom_deliver msg w) =
     (room_m w)\<lparr>recent_msgs_m :=
        pop_excess (recent_msgs_m (room_m w) @ [ChatMessage_copy msg])\<rparr>"
  by (simp add: ChatRoom_deliver_def Let_def room_fold_deliver_parts)

lemma sessions_ChatRoom_join:
  "sessions (ChatRoom_join p w) q =
     (if q = p
      then fold (\<lambda>msg. ChatSession_deliver (ChatMessage_copy msg)) (recent_msgs_m (room_m w))
             (sessions w p)
      else sessions w q)"
  by (simp add: ChatRoom_join_def Let_def sessions_fold_deliver_msgs)

lemma sessions_ChatRoom_leave: "sessions (ChatRoom_leave p w) = sessions w"
  by (simp add: ChatRoom_leave_def)

lemma sessions_ChatRoom_deliver:
  "distinct (participants_m (room_m w)) \<Longrightarrow>
   sessions (ChatRoom_deliver msg w) q =
     (if q \<in> set (participants_m (room_m w)) then ChatSession_deliver msg (sessions w q)
      else sessions w q)"
  by (simp add: ChatRoom_deliver_def Let_def sessions_fold_deliver_parts)

lemma room_ok_call: "room_ok w \<Longrightarrow> room_ok (call c w)"
  by (cases c)
    (simp_all add: room_ok_def room_ChatRoom_join room_ChatRoom_leave room_ChatRoom_deliver
      distinct_set_insert sorted_set_insert distinct_set_erase sorted_set_erase)

lemma room_ok_calls: "room_ok w \<Longrightarrow> room_ok (calls cs w)"
  unfolding calls_def by (induction cs arbitrary: w) (simp_all add: room_ok_call)

lemma room_ok_init: "room_ok World_init"
  by (simp add: room_ok_def World_init_def)

lemma last_n_append:
  "drop (length (drop (length xs - n) xs @ ys) - n) (drop (length xs - n) xs @ ys)
     = drop (length (xs @ ys) - n) (xs @ ys)"
  by (cases "length xs \<le> n") (auto simp: add.commute)

lemma delivered_append: "delivered (cs @ ds) = delivered cs @ delivered ds"
  by (induction cs rule: delivered.induct) simp_all

lemma recent_calls:
  "recent_msgs_m (room_m w) = drop (length xs - max_recent_msgs) xs \<Longrightarrow>
   recent_msgs_m (room_m (calls cs w)) =
     drop (length (xs @ map ChatMessage_copy (delivered cs)) - max_recent_msgs)
       (xs @ map ChatMessage_copy (delivered cs))"
proof (induction cs arbitrary: w xs)
  case Nil
  then show ?case by (simp add: calls_def)
next
  case (Cons c cs)
  have step: "recent_msgs_m (room_m (call c w)) =
      drop (length (xs @ map ChatMessage_copy (delivered [c])) - max_recent_msgs)
        (xs @ map ChatMessage_copy (delivered [c]))"
  proof (cases c)
    case (Deliver msg)
    then show ?thesis
      using last_n_append [of xs max_recent_msgs "[ChatMessage_copy msg]"]
      by (simp add: room_ChatRoom_deliver pop_excess_drop Cons.prems)
  qed (simp_all add: room_ChatRoom_join room_ChatRoom_leave Cons.prems)
  have "delivered (c # cs) = delivered [c] @ delivered cs"
    using delivered_append [of "[c]" cs] by simp
  with Cons.IH [OF step] show ?case
    by (simp add: calls_def)
qed

lemma recent_calls_init:
  "recent_msgs_m (room_m (calls cs World_init)) =
     drop (length (delivered cs) - max_recent_msgs) (map ChatMessage_copy (delivered cs))"
  using recent_calls [of World_init "[]" cs] by (simp add: World_init_def)

lemma delivered_map_Deliver: "delivered (map (\<lambda>i. Deliver (f i)) xs) = map f xs"
  by (induction xs) simp_all

lemma room_ok_do_write_handler:
  "do_write_handler q ec w = Inr w' \<Longrightarrow> room_ok w \<Longrightarrow> room_ok w'"
  by (auto simp: do_write_handler_def Let_def room_ok_def ChatRoom_leave_def
      distinct_set_erase sorted_set_erase split: if_splits list.splits)

lemma participants_do_write_handler:
  "do_write_handler q ec w = Inr w' \<Longrightarrow>
   participants_m (room_m w') =
     (if ec then set_erase q (participants_m (room_m w)) else participants_m (room_m w))"
  by (auto simp: do_write_handler_def Let_def ChatRoom_leave_def
      split: if_splits list.splits)

lemma sessions_do_write_handler_other:
  "do_write_handler q ec w = Inr w' \<Longrightarrow> p \<noteq> q \<Longrightarrow> sessions w' p = sessions w p"
  by (auto simp: do_write_handler_def Let_def ChatRoom_leave_def
      split: if_splits list.splits)

lemma sessions_do_write_handler_ok:
  "do_write_handler p False w = Inr w' \<Longrightarrow>
   \<exists>m rest. write_msgs_m (sessions w p) = m # rest
     \<and> write_msgs_m (sessions w' p) = rest
     \<and> socket_written (sessions w' p) = socket_written (sessions w p) @ [m]
     \<and> write_pending (sessions w' p) = (rest \<noteq> [])"
  by (auto simp: do_write_handler_def Let_def do_write_def split: if_splits list.splits)

lemma step_member:
  assumes "step e w = Inr w'"
    and "room_ok w"
    and "p \<in> set (participants_m (room_m w))"
    and "e \<noteq> Call (Join p)" and "e \<noteq> Call (Leave p)" and "e \<noteq> WriteDone p True"
  shows "socket_written (sessions w' p) @ write_msgs_m (sessions w' p) =
           socket_written (sessions w p) @ write_msgs_m (sessions w p)
             @ map ChatMessage_copy (delivered (room_calls [e]))"
    and "room_ok w'"
    and "p \<in> set (participants_m (room_m w'))"
proof -
  show "room_ok w'"
  proof (cases e)
    case (Call c)
    with assms(1,2) show ?thesis
      using room_ok_call [of w c] by auto
  next
    case (WriteDone q ec)
    with assms(1,2) show ?thesis
      using room_ok_do_write_handler [of q ec w w'] by simp
  qed
  from assms(2) have d: "distinct (participants_m (room_m w))"
    by (simp add: room_ok_def)
  show "p \<in> set (participants_m (room_m w'))"
  proof (cases e)
    case (Call c)
    with assms(1,3,4,5) show ?thesis
      by (cases c)
        (auto simp: room_ChatRoom_join room_ChatRoom_leave room_ChatRoom_deliver
          set_set_insert set_set_erase)
  next
    case (WriteDone q ec)
    with assms(1,3,6) show ?thesis
      using participants_do_write_handler [of q ec w w']
      by (auto simp: set_set_erase)
  qed
  show "socket_written (sessions w' p) @ write_msgs_m (sessions w' p) =
      socket_written (sessions w p) @ write_msgs_m (sessions w p)
        @ map ChatMessage_copy (delivered (room_calls [e]))"
  proof (cases e)
    case (Call c)
    show ?thesis
    proof (cases c)
      case (Join q)
      with Call assms(1,4) show ?thesis
        by (auto simp: sessions_ChatRoom_join)
    next
      case (Leave q)
      with Call assms(1) show ?thesis
        by (auto simp: sessions_ChatRoom_leave)
    next
      case (Deliver msg)
      with Call assms(1,3) d show ?thesis
        by (auto simp: sessions_ChatRoom_deliver write_msgs_ChatSession_deliver
            socket_written_ChatSession_deliver)
    qed
  next
    case (WriteDone q ec)
    show ?thesis
    proof (cases "q = p")
      case False
      with WriteDone assms(1) show ?thesis
        using sessions_do_write_handler_other [of q ec w w' p] by simp
    next
      case True
      with WriteDone assms(6) have "ec = False" by auto
      with True WriteDone assms(1) show ?thesis
        using sessions_do_write_handler_ok [of p w w'] by auto
    qed
  qed
qed

lemma delivered_room_calls_Cons:
  "delivered (room_calls (e # es)) = delivered (room_calls [e]) @ delivered (room_calls es)"
proof (cases e)
  case (Call c)
  then show ?thesis by (cases c) simp_all
next
  case (WriteDone q ec)
  then show ?thesis by simp
qed


section \<open>Claims about ChatMessage\<close>

text \<open>
  C10. The mutator \<^verbatim>\<open>body_length(n)\<close> stores \<open>min n max_body_length\<close>, for every \<open>n\<close>: the
  stored length never exceeds \<open>max_body_length\<close>, and the buffer is left as it was.
\<close>

theorem body_length_set_clamps:
  "body_length (body_length_set max_body_length n m) = min n max_body_length
   \<and> body_length (body_length_set max_body_length n m) \<le> max_body_length
   \<and> data_m (body_length_set max_body_length n m) = data_m m"
  by (simp add: body_length_set_def body_length_def Let_def)

text \<open>
  C3. Let the header field of a buffer (its first \<open>header_length\<close> characters, up to a NUL)
  parse under \<^verbatim>\<open>atoi\<close> to the value \<open>v\<close>. When \<open>v\<close> is greater than \<open>max_body_length\<close>,
  \<^verbatim>\<open>decode_header\<close> returns false and leaves \<^verbatim>\<open>body_length_\<close> at 0; when
  \<open>0 \<le> v \<le> max_body_length\<close>, it returns true and sets \<^verbatim>\<open>body_length_\<close> to \<open>v\<close>.
\<close>

theorem decode_header_checks_bound:
  assumes "strncat_read header_length (data_m m) = Inr header"
    and "atoi header = Inr v"
  shows "(int max_body_length < v \<longrightarrow>
            decode_header max_body_length m = Inr (False, m\<lparr>body_length_m := 0\<rparr>))
       \<and> (0 \<le> v \<and> v \<le> int max_body_length \<longrightarrow>
            decode_header max_body_length m = Inr (True, m\<lparr>body_length_m := nat v\<rparr>))"
proof (intro conjI impI)
  assume "int max_body_length < v"
  then have "0 \<le> v" and "max_body_length < nat v"
    by simp_all
  with decode_header_value [OF assms, of max_body_length]
  show "decode_header max_body_length m = Inr (False, m\<lparr>body_length_m := 0\<rparr>)"
    by simp
next
  assume "0 \<le> v \<and> v \<le> int max_body_length"
  then have "0 \<le> v" and "\<not> max_body_length < nat v"
    by linarith+
  with decode_header_value [OF assms, of max_body_length]
  show "decode_header max_body_length m = Inr (True, m\<lparr>body_length_m := nat v\<rparr>)"
    by simp
qed

theorem decode_header_checks_bound_witness:
  "decode_header 512 \<lparr>data_m = map Some ''9999hi'', body_length_m = 7\<rparr>
     = Inr (False, \<lparr>data_m = map Some ''9999hi'', body_length_m = 0\<rparr>)
   \<and> decode_header 512 \<lparr>data_m = map Some ''   2hi'', body_length_m = 7\<rparr>
     = Inr (True, \<lparr>data_m = map Some ''   2hi'', body_length_m = 2\<rparr>)"
proof -
  have h1: "strncat_read header_length
      (data_m \<lparr>data_m = map Some ''9999hi'', body_length_m = 7\<rparr>) = Inr ''9999''"
    by code_simp
  have v1: "atoi ''9999'' = Inr 9999"
    by code_simp
  have h2: "strncat_read header_length
      (data_m \<lparr>data_m = map Some ''   2hi'', body_length_m = 7\<rparr>) = Inr ''   2''"
    by code_simp
  have v2: "atoi ''   2'' = Inr 2"
    by code_simp
  show ?thesis
    using decode_header_checks_bound [OF h1 v1, of 512]
      decode_header_checks_bound [OF h2 v2, of 512]
    by simp
qed

text \<open>
  C1. Header round trip. For every \<open>n \<le> max_body_length\<close>: setting the body length to \<open>n\<close>
  and calling \<^verbatim>\<open>encode_header\<close> succeeds, and \<^verbatim>\<open>decode_header\<close> on the resulting buffer
  (whatever length \<open>k\<close> the decoding message held before) returns true with
  \<^verbatim>\<open>body_length_\<close> equal to \<open>n\<close>. The absent constant \<open>max_body_length\<close> is any value that the
  four-character field can hold, and the buffer has room for the header.
\<close>

theorem header_round_trip:
  assumes "n \<le> max_body_length"
    and "max_body_length \<le> 9999"
    and "header_length \<le> length (data_m m)"
  shows "\<exists>m'. encode_header (body_length_set max_body_length n m) = Inr m'
           \<and> decode_header max_body_length (m'\<lparr>body_length_m := k\<rparr>) = Inr (True, m')
           \<and> body_length m' = n"
proof -
  define s where "s = sprintf_4d (int n)"
  define m' where
    "m' = m\<lparr>body_length_m := n, data_m := map Some s @ drop header_length (data_m m)\<rparr>"
  from assms have n: "n \<le> 9999" by simp
  have s: "s = replicate (4 - length (dec_nat n)) CHR '' '' @ dec_nat n"
    and ls: "length s = 4"
    using length_sprintf_4d [OF n] by (simp_all add: s_def)
  have cast: "int_of_size_t n = int n"
    using n by (simp add: int_of_size_t_def)
  have enc: "encode_header (body_length_set max_body_length n m) = Inr m'"
    using assms ls
    by (simp add: encode_header_def body_length_set_def cast s_def [symmetric] m'_def
        header_length_def)
  have "NUL \<notin> set s"
    using isdigit_not dec_nat_digits by (auto simp: s NUL_def)
  then have "strncat_read (length s) (map Some s @ drop header_length (data_m m)) = Inr s"
    by (rule strncat_read_full)
  then have rd: "strncat_read header_length (data_m (m'\<lparr>body_length_m := k\<rparr>)) = Inr s"
    by (simp add: ls m'_def header_length_def)
  have "n < 2 ^ 31" using n by simp
  then have at: "atoi s = Inr (int n)"
    unfolding s by (rule atoi_dec_nat)
  have "decode_header max_body_length (m'\<lparr>body_length_m := k\<rparr>) = Inr (True, m')"
    using decode_header_value [OF rd at, of max_body_length] assms(1)
    by (simp add: m'_def)
  with enc show ?thesis
    by (auto simp: m'_def body_length_def)
qed

theorem header_round_trip_witness:
  "\<exists>m'. encode_header (body_length_set 512 37 (ChatMessage_default 512)) = Inr m'
         \<and> decode_header 512 (m'\<lparr>body_length_m := 0\<rparr>) = Inr (True, m')
         \<and> body_length m' = 37"
  using header_round_trip [of 37 512 "ChatMessage_default 512" 0]
  by (simp add: ChatMessage_default_def header_length_def)

text \<open>
  C6. \<^verbatim>\<open>set_data\<close> copies \<open>size\<close> bytes without looking at the capacity of \<^verbatim>\<open>data_\<close>: handed
  one byte more than the array holds, the loop stores beyond its end.
\<close>

theorem set_data_unbounded_copy:
  "set_data (ChatMessage_default max_body_length)
     (replicate (header_length + max_body_length + 1) c)
     (int (header_length + max_body_length + 1)) = Inl BufferOverrun"
  by (simp add: set_data_def ChatMessage_default_def set_data_loop_overrun)


section \<open>Claims about ChatRoom and ChatSession\<close>

text \<open>
  What the history is after any sequence of join, leave and deliver calls on a new room:
  the last \<open>max_recent_msgs = 100\<close> of the copies that \<^verbatim>\<open>push_back\<close> made of the delivered
  messages, oldest first. It never has more than 100 entries, and exactly 100 once more
  than 100 messages have been delivered.
\<close>

lemma recent_msgs_last_copies:
  "length (recent_msgs_m (room_m (calls cs World_init))) \<le> max_recent_msgs
   \<and> recent_msgs_m (room_m (calls cs World_init)) =
       drop (length (delivered cs) - max_recent_msgs) (map ChatMessage_copy (delivered cs))
   \<and> (max_recent_msgs < length (delivered cs) \<longrightarrow>
        length (recent_msgs_m (room_m (calls cs World_init))) = max_recent_msgs)"
  by (auto simp: recent_calls_init)

text \<open>
  C4. 101 messages are delivered to a new room, message \<open>i\<close> with the header \<^verbatim>\<open>"   1"\<close> and the
  one body byte \<open>i\<close>. The history then has 100 entries, but they are not the 100 most
  recently delivered messages: every entry is what the copy constructor made, the length 1
  and an array in which no byte has been stored, so all 100 entries are the same and none
  holds the header or the body byte of the message it stands for.
\<close>

theorem history_holds_blank_copies:
  "recent_msgs_m (room_m (calls
       (map (\<lambda>i. Deliver \<lparr>data_m = map Some ''   1'' @ Some (char_of i) # replicate 511 None,
                            body_length_m = 1\<rparr>) [0..<101])
       World_init))
     = replicate 100 \<lparr>data_m = replicate 516 None, body_length_m = 1\<rparr>
   \<and> replicate 100 \<lparr>data_m = replicate 516 None, body_length_m = 1\<rparr>
     \<noteq> map (\<lambda>i. \<lparr>data_m = map Some ''   1'' @ Some (char_of i) # replicate 511 None,
                    body_length_m = 1\<rparr>) [1..<101]"
proof -
  let ?msg = "\<lambda>i::nat. \<lparr>data_m = map Some ''   1'' @ Some (char_of i) # replicate 511 None,
      body_length_m = 1\<rparr>"
  let ?blank = "\<lparr>data_m = replicate 516 None, body_length_m = 1\<rparr>"
  have "recent_msgs_m (room_m (calls (map (\<lambda>i. Deliver (?msg i)) [0..<101]) World_init))
      = drop 1 (map ChatMessage_copy (map ?msg [0..<101]))"
    by (simp add: recent_calls_init delivered_map_Deliver max_recent_msgs_def del: map_map)
  also have "\<dots> = map (\<lambda>i. ?blank) [1..<101]"
    by (simp add: drop_map ChatMessage_copy_def)
  also have "\<dots> = replicate 100 ?blank"
    by (simp add: map_replicate_const)
  finally have hist:
    "recent_msgs_m (room_m (calls (map (\<lambda>i. Deliver (?msg i)) [0..<101]) World_init))
      = replicate 100 ?blank" .
  have "replicate 100 ?blank \<noteq> map ?msg [1..<101]"
  proof
    assume "replicate 100 ?blank = map ?msg [1..<101]"
    then have "replicate 100 ?blank ! 0 = map ?msg [1..<101] ! 0"
      by (rule arg_cong)
    then have "?blank = ?msg 1"
      by simp
    then have "data_m ?blank = data_m (?msg 1)"
      by (rule arg_cong)
    then show False
      by (simp add: eval_nat_numeral)
  qed
  with hist show ?thesis
    by (simp only: simp_thms)
qed

text \<open>
  What \<^verbatim>\<open>ChatRoom::join\<close> does when at most 100 messages have been delivered to a new room:
  the queue of the joining participant grows by one entry for each of them, the copy of
  the copy the history holds, no other session changes, and a message delivered after the
  join is queued behind them.
\<close>

lemma join_replays_copies:
  assumes "length (delivered cs) \<le> max_recent_msgs"
    and "w = calls cs World_init"
  shows "write_msgs_m (sessions (ChatRoom_join p w) p) =
           write_msgs_m (sessions w p) @ map ChatMessage_copy (delivered cs)
       \<and> (\<forall>q. q \<noteq> p \<longrightarrow> sessions (ChatRoom_join p w) q = sessions w q)
       \<and> write_msgs_m (sessions (ChatRoom_deliver msg (ChatRoom_join p w)) p) =
           write_msgs_m (sessions w p) @ map ChatMessage_copy (delivered cs)
             @ [ChatMessage_copy msg]"
proof -
  have hist: "recent_msgs_m (room_m w) = map ChatMessage_copy (delivered cs)"
    using assms by (simp add: recent_calls_init)
  have join: "write_msgs_m (sessions (ChatRoom_join p w) p) =
      write_msgs_m (sessions w p) @ map ChatMessage_copy (delivered cs)"
    by (simp add: sessions_ChatRoom_join write_msgs_fold_deliver hist ChatMessage_copy_idem)
  have "room_ok w"
    using assms(2) room_ok_init room_ok_calls by simp
  then have "room_ok (call (Join p) w)"
    by (rule room_ok_call)
  then have d: "distinct (participants_m (room_m (ChatRoom_join p w)))"
    by (simp add: room_ok_def)
  have "p \<in> set (participants_m (room_m (ChatRoom_join p w)))"
    by (simp add: room_ChatRoom_join set_set_insert)
  with d have "write_msgs_m (sessions (ChatRoom_deliver msg (ChatRoom_join p w)) p) =
      write_msgs_m (sessions (ChatRoom_join p w) p) @ [ChatMessage_copy msg]"
    by (simp add: sessions_ChatRoom_deliver write_msgs_ChatSession_deliver)
  with join show ?thesis
    by (simp add: sessions_ChatRoom_join)
qed

text \<open>
  C5. The messages \<^verbatim>\<open>"   2hi"\<close> and \<^verbatim>\<open>"   2yo"\<close> are delivered to a new room and participant 3
  joins. Its queue gets two entries, but they are not the two history messages in their
  order: each is the length 2 with an array in which no byte has been stored, the queue is
  the same when the two messages are delivered the other way round, and the body of an
  entry is two indeterminate bytes.
\<close>

theorem join_replays_blank_copies:
  "write_msgs_m (sessions (ChatRoom_join 3
       (calls [Deliver \<lparr>data_m = map Some ''   2hi'' @ replicate 510 None, body_length_m = 2\<rparr>,
               Deliver \<lparr>data_m = map Some ''   2yo'' @ replicate 510 None, body_length_m = 2\<rparr>]
          World_init)) 3)
     = [\<lparr>data_m = replicate 516 None, body_length_m = 2\<rparr>,
        \<lparr>data_m = replicate 516 None, body_length_m = 2\<rparr>]
   \<and> write_msgs_m (sessions (ChatRoom_join 3
       (calls [Deliver \<lparr>data_m = map Some ''   2yo'' @ replicate 510 None, body_length_m = 2\<rparr>,
               Deliver \<lparr>data_m = map Some ''   2hi'' @ replicate 510 None, body_length_m = 2\<rparr>]
          World_init)) 3)
     = [\<lparr>data_m = replicate 516 None, body_length_m = 2\<rparr>,
        \<lparr>data_m = replicate 516 None, body_length_m = 2\<rparr>]
   \<and> take 2 (body \<lparr>data_m = replicate 516 None, body_length_m = 2\<rparr>) = [None, None]
   \<and> take 2 (body \<lparr>data_m = map Some ''   2hi'' @ replicate 510 None, body_length_m = 2\<rparr>)
     = map Some ''hi''"
proof -
  let ?hi = "\<lparr>data_m = map Some ''   2hi'' @ replicate 510 None, body_length_m = 2\<rparr>"
  let ?yo = "\<lparr>data_m = map Some ''   2yo'' @ replicate 510 None, body_length_m = 2\<rparr>"
  let ?blank = "\<lparr>data_m = replicate 516 None, body_length_m = 2\<rparr>"
  have c: "ChatMessage_copy ?hi = ?blank" "ChatMessage_copy ?yo = ?blank"
    by (simp_all add: ChatMessage_copy_def)
  have old: "write_msgs_m (sessions (calls cs World_init) 3) = []"
    if "cs = [Deliver a, Deliver b]" for cs a b
    unfolding that
    by (simp add: calls_def sessions_ChatRoom_deliver room_ChatRoom_deliver World_init_def
        ChatSession_new_def)
  have "write_msgs_m (sessions (ChatRoom_join 3 (calls [Deliver ?hi, Deliver ?yo] World_init)) 3)
      = [ChatMessage_copy ?hi, ChatMessage_copy ?yo]"
    using join_replays_copies [of "[Deliver ?hi, Deliver ?yo]" _ 3, OF _ refl]
      old [of "[Deliver ?hi, Deliver ?yo]" ?hi ?yo]
    by (simp add: max_recent_msgs_def)
  then have q1:
    "write_msgs_m (sessions (ChatRoom_join 3 (calls [Deliver ?hi, Deliver ?yo] World_init)) 3)
      = [?blank, ?blank]"
    by (simp only: c)
  have "write_msgs_m (sessions (ChatRoom_join 3 (calls [Deliver ?yo, Deliver ?hi] World_init)) 3)
      = [ChatMessage_copy ?yo, ChatMessage_copy ?hi]"
    using join_replays_copies [of "[Deliver ?yo, Deliver ?hi]" _ 3, OF _ refl]
      old [of "[Deliver ?yo, Deliver ?hi]" ?yo ?hi]
    by (simp add: max_recent_msgs_def)
  then have q2:
    "write_msgs_m (sessions (ChatRoom_join 3 (calls [Deliver ?yo, Deliver ?hi] World_init)) 3)
      = [?blank, ?blank]"
    by (simp only: c)
  have b1: "take 2 (body ?blank) = [None, None]"
    by (simp add: body_def header_length_def eval_nat_numeral)
  have b2: "take 2 (body ?hi) = map Some ''hi''"
    by (simp add: body_def header_length_def)
  from q1 q2 b1 b2 show ?thesis
    by (simp only: simp_thms)
qed

text \<open>
  C7. \<^verbatim>\<open>ChatRoom::deliver\<close> calls \<^verbatim>\<open>deliver\<close> once on the session of every participant in the
  set (whichever of them sent the message), which appends one copy of the message to that
  session's queue, and leaves every other session as it was.
\<close>

theorem broadcast_coverage:
  assumes "room_ok w"
  shows "sessions (ChatRoom_deliver msg w) q =
           (if q \<in> set (participants_m (room_m w))
            then ChatSession_deliver msg (sessions w q) else sessions w q)
       \<and> write_msgs_m (sessions (ChatRoom_deliver msg w) q) =
           (if q \<in> set (participants_m (room_m w))
            then write_msgs_m (sessions w q) @ [ChatMessage_copy msg]
            else write_msgs_m (sessions w q))"
  using assms
  by (simp add: room_ok_def sessions_ChatRoom_deliver write_msgs_ChatSession_deliver)

theorem broadcast_coverage_witness:
  "write_msgs_m (sessions (ChatRoom_deliver (ChatMessage_default 512)
       (calls [Join 4, Join 2] World_init)) 4) = [ChatMessage_copy (ChatMessage_default 512)]
   \<and> write_msgs_m (sessions (ChatRoom_deliver (ChatMessage_default 512)
       (calls [Join 4, Join 2] World_init)) 2) = [ChatMessage_copy (ChatMessage_default 512)]
   \<and> write_msgs_m (sessions (ChatRoom_deliver (ChatMessage_default 512)
       (calls [Join 4, Join 2] World_init)) 3) = []"
proof -
  let ?w = "calls [Join 4, Join 2] World_init"
  have ok: "room_ok ?w"
    by (rule room_ok_calls) (rule room_ok_init)
  have ps: "participants_m (room_m ?w) = [2, 4]"
    by (simp add: calls_def room_ChatRoom_join set_insert_def World_init_def)
  have qs: "write_msgs_m (sessions ?w q) = []" for q
    by (simp add: calls_def sessions_ChatRoom_join room_ChatRoom_join World_init_def
        ChatSession_new_def)
  show ?thesis
    using broadcast_coverage [OF ok, of "ChatMessage_default 512" 4]
      broadcast_coverage [OF ok, of "ChatMessage_default 512" 2]
      broadcast_coverage [OF ok, of "ChatMessage_default 512" 3]
    by (simp add: ps qs write_msgs_ChatSession_deliver)
qed

text \<open>
  C9. \<^verbatim>\<open>ChatRoom::leave\<close> is total (it has no error to return). It takes the participant out
  of the set and nothing else, it leaves the history and every session as they were, a
  second call changes nothing more, and for a participant that is not in the set the call
  changes nothing at all.
\<close>

theorem leave_idempotent:
  "set (participants_m (room_m (ChatRoom_leave p w))) = set (participants_m (room_m w)) - {p}
   \<and> recent_msgs_m (room_m (ChatRoom_leave p w)) = recent_msgs_m (room_m w)
   \<and> sessions (ChatRoom_leave p w) = sessions w
   \<and> ChatRoom_leave p (ChatRoom_leave p w) = ChatRoom_leave p w
   \<and> (p \<notin> set (participants_m (room_m w)) \<longrightarrow> ChatRoom_leave p w = w)"
  by (simp add: ChatRoom_leave_def set_erase_def)

theorem leave_idempotent_witness:
  "ChatRoom_leave 5 (calls [Join 4, Join 2] World_init) = calls [Join 4, Join 2] World_init
   \<and> participants_m (room_m (ChatRoom_leave 4 (ChatRoom_leave 4 (calls [Join 4, Join 2] World_init))))
       = [2]"
proof -
  let ?w = "calls [Join 4, Join 2] World_init"
  have ps: "participants_m (room_m ?w) = [2, 4]"
    by (simp add: calls_def room_ChatRoom_join set_insert_def World_init_def)
  show ?thesis
    using leave_idempotent [of 5 ?w] leave_idempotent [of 4 ?w]
    by (simp add: ps room_ChatRoom_leave set_erase_def)
qed

text \<open>
  What a participant \<open>p\<close> of the room sees of a sequence of events that runs without error
  and in which \<open>p\<close> neither joins again nor leaves and none of \<open>p\<close>'s writes fails: what its
  socket has written followed by what its queue still holds is what it was before followed
  by one copy for each message delivered to the room, in the order of the \<^verbatim>\<open>deliver\<close> calls.
\<close>

lemma run_member:
  assumes "run evs w = Inr w'"
    and "room_ok w"
    and "p \<in> set (participants_m (room_m w))"
    and "\<forall>e \<in> set evs. e \<noteq> Call (Join p) \<and> e \<noteq> Call (Leave p) \<and> e \<noteq> WriteDone p True"
  shows "socket_written (sessions w' p) @ write_msgs_m (sessions w' p) =
           socket_written (sessions w p) @ write_msgs_m (sessions w p)
             @ map ChatMessage_copy (delivered (room_calls evs))"
  using assms
proof (induction evs arbitrary: w)
  case Nil
  then show ?case by simp
next
  case (Cons e es)
  from Cons.prems(1) obtain w1 where s: "step e w = Inr w1" and r: "run es w1 = Inr w'"
    by (auto split: sum.splits)
  from Cons.prems(4) have e: "e \<noteq> Call (Join p)" "e \<noteq> Call (Leave p)" "e \<noteq> WriteDone p True"
    and es: "\<forall>e \<in> set es. e \<noteq> Call (Join p) \<and> e \<noteq> Call (Leave p) \<and> e \<noteq> WriteDone p True"
    by simp_all
  note m = step_member [OF s Cons.prems(2,3) e]
  from Cons.IH [OF r m(2) m(3) es] m(1) show ?case
    by (simp add: delivered_room_calls_Cons [of e es])
qed

text \<open>
  C8. Participant 3 is in the room, the messages \<^verbatim>\<open>"   2hi"\<close>, \<^verbatim>\<open>"   2yo"\<close> and \<^verbatim>\<open>"   2ok"\<close> are
  delivered in that order, and its three writes complete without error. Its socket has
  then written three messages and its queue is empty, but what was queued and written is
  not the three messages in their order: each entry is the length 2 with an array in which
  no byte has been stored, and the socket has written the same when the three messages are
  delivered in the opposite order.
\<close>

theorem write_loop_sends_blank_copies:
  "(\<exists>w'. run [Call (Deliver \<lparr>data_m = map Some ''   2hi'' @ replicate 510 None, body_length_m = 2\<rparr>),
               Call (Deliver \<lparr>data_m = map Some ''   2yo'' @ replicate 510 None, body_length_m = 2\<rparr>),
               WriteDone 3 False,
               Call (Deliver \<lparr>data_m = map Some ''   2ok'' @ replicate 510 None, body_length_m = 2\<rparr>),
               WriteDone 3 False,
               WriteDone 3 False] (ChatRoom_join 3 World_init) = Inr w'
      \<and> write_msgs_m (sessions w' 3) = []
      \<and> socket_written (sessions w' 3) =
          [\<lparr>data_m = replicate 516 None, body_length_m = 2\<rparr>,
           \<lparr>data_m = replicate 516 None, body_length_m = 2\<rparr>,
           \<lparr>data_m = replicate 516 None, body_length_m = 2\<rparr>])
   \<and> (\<exists>w'. run [Call (Deliver \<lparr>data_m = map Some ''   2ok'' @ replicate 510 None, body_length_m = 2\<rparr>),
               Call (Deliver \<lparr>data_m = map Some ''   2yo'' @ replicate 510 None, body_length_m = 2\<rparr>),
               WriteDone 3 False,
               Call (Deliver \<lparr>data_m = map Some ''   2hi'' @ replicate 510 None, body_length_m = 2\<rparr>),
               WriteDone 3 False,
               WriteDone 3 False] (ChatRoom_join 3 World_init) = Inr w'
      \<and> write_msgs_m (sessions w' 3) = []
      \<and> socket_written (sessions w' 3) =
          [\<lparr>data_m = replicate 516 None, body_length_m = 2\<rparr>,
           \<lparr>data_m = replicate 516 None, body_length_m = 2\<rparr>,
           \<lparr>data_m = replicate 516 None, body_length_m = 2\<rparr>])
   \<and> take 2 (body \<lparr>data_m = replicate 516 None, body_length_m = 2\<rparr>) = [None, None]"
proof -
  let ?hi = "\<lparr>data_m = map Some ''   2hi'' @ replicate 510 None, body_length_m = 2\<rparr>"
  let ?yo = "\<lparr>data_m = map Some ''   2yo'' @ replicate 510 None, body_length_m = 2\<rparr>"
  let ?ok = "\<lparr>data_m = map Some ''   2ok'' @ replicate 510 None, body_length_m = 2\<rparr>"
  let ?blank = "\<lparr>data_m = replicate 516 None, body_length_m = 2\<rparr>"
  let ?w = "ChatRoom_join 3 World_init"
  have c: "ChatMessage_copy ?hi = ?blank" "ChatMessage_copy ?yo = ?blank"
    "ChatMessage_copy ?ok = ?blank"
    by (simp_all add: ChatMessage_copy_def)
  have ok: "room_ok ?w"
    using room_ok_call [OF room_ok_init, of "Join 3"] by simp
  have mem: "3 \<in> set (participants_m (room_m ?w))"
    by (simp add: room_ChatRoom_join set_set_insert)
  have w: "?w = \<lparr>room_m = \<lparr>participants_m = [3], recent_msgs_m = []\<rparr>,
      sessions = (\<lambda>p. ChatSession_new)\<rparr>"
    by (simp add: ChatRoom_join_def World_init_def set_insert_def)
  have old: "socket_written (sessions ?w 3) = []" "write_msgs_m (sessions ?w 3) = []"
    by (simp_all add: w ChatSession_new_def)
  have sent: "\<exists>w'. run evs ?w = Inr w' \<and> write_msgs_m (sessions w' 3) = []
      \<and> socket_written (sessions w' 3)
          = [ChatMessage_copy a, ChatMessage_copy b, ChatMessage_copy d]"
    if evs: "evs = [Call (Deliver a), Call (Deliver b), WriteDone 3 False,
        Call (Deliver d), WriteDone 3 False, WriteDone 3 False]" for evs a b d
  proof -
    have "case run evs ?w of Inl x \<Rightarrow> False | Inr w' \<Rightarrow> write_msgs_m (sessions w' 3) = []"
      unfolding w evs
      by (simp add: ChatRoom_deliver_def participant_deliver_def ChatSession_deliver_def
          do_write_def do_write_handler_def ChatSession_new_def pop_excess_drop
          max_recent_msgs_def Let_def)
    then obtain w' where r: "run evs ?w = Inr w'" and q: "write_msgs_m (sessions w' 3) = []"
      by (auto split: sum.splits)
    have "\<forall>e \<in> set evs. e \<noteq> Call (Join 3) \<and> e \<noteq> Call (Leave 3) \<and> e \<noteq> WriteDone 3 True"
      by (simp add: evs)
    from run_member [OF r ok mem this] q old
    have "socket_written (sessions w' 3)
        = [ChatMessage_copy a, ChatMessage_copy b, ChatMessage_copy d]"
      by (simp add: evs)
    with r q show ?thesis
      by blast
  qed
  have s1: "\<exists>w'. run [Call (Deliver ?hi), Call (Deliver ?yo), WriteDone 3 False,
        Call (Deliver ?ok), WriteDone 3 False, WriteDone 3 False] ?w = Inr w'
      \<and> write_msgs_m (sessions w' 3) = []
      \<and> socket_written (sessions w' 3) = [?blank, ?blank, ?blank]"
    using sent [OF refl, of ?hi ?yo ?ok] by (simp only: c)
  have s2: "\<exists>w'. run [Call (Deliver ?ok), Call (Deliver ?yo), WriteDone 3 False,
        Call (Deliver ?hi), WriteDone 3 False, WriteDone 3 False] ?w = Inr w'
      \<and> write_msgs_m (sessions w' 3) = []
      \<and> socket_written (sessions w' 3) = [?blank, ?blank, ?blank]"
    using sent [OF refl, of ?ok ?yo ?hi] by (simp only: c)
  have b: "take 2 (body ?blank) = [None, None]"
    by (simp add: body_def header_length_def eval_nat_numeral)
  from s1 s2 b show ?thesis
    by (simp only: simp_thms)
qed

text \<open>
  C2. A sender's message with the header \<^verbatim>\<open>"   2"\<close> and the body \<^verbatim>\<open>"hi"\<close> decodes to the body
  length 2 and is handed to \<^verbatim>\<open>ChatRoom::deliver\<close> while participant 3 is in the room. The
  entry of the history and the entry of the participant's queue are made by the copy
  constructor, which copies \<^verbatim>\<open>body_length_\<close> only: both hold the length 2 and an array in
  which no byte has been stored, so the two body bytes of the queued message are
  indeterminate where the sender's are \<^verbatim>\<open>"hi"\<close>.
\<close>

theorem relay_loses_body:
  "decode_header 512 \<lparr>data_m = map Some ''   2hi'' @ replicate 510 None, body_length_m = 0\<rparr>
     = Inr (True, \<lparr>data_m = map Some ''   2hi'' @ replicate 510 None, body_length_m = 2\<rparr>)
   \<and> take 2 (body \<lparr>data_m = map Some ''   2hi'' @ replicate 510 None, body_length_m = 2\<rparr>)
     = map Some ''hi''
   \<and> write_msgs_m (sessions
       (ChatRoom_deliver \<lparr>data_m = map Some ''   2hi'' @ replicate 510 None, body_length_m = 2\<rparr>
          (ChatRoom_join 3 World_init)) 3)
     = [\<lparr>data_m = replicate 516 None, body_length_m = 2\<rparr>]
   \<and> recent_msgs_m (room_m
       (ChatRoom_deliver \<lparr>data_m = map Some ''   2hi'' @ replicate 510 None, body_length_m = 2\<rparr>
          (ChatRoom_join 3 World_init)))
     = [\<lparr>data_m = replicate 516 None, body_length_m = 2\<rparr>]
   \<and> take 2 (body \<lparr>data_m = replicate 516 None, body_length_m = 2\<rparr>) = [None, None]"
proof -
  let ?m = "\<lparr>data_m = map Some ''   2hi'' @ replicate 510 None, body_length_m = 2\<rparr>"
  have h: "strncat_read header_length
      (data_m \<lparr>data_m = map Some ''   2hi'' @ replicate 510 None, body_length_m = 0\<rparr>)
        = Inr ''   2''"
    by (simp add: header_length_def eval_nat_numeral NUL_def)
  have v: "atoi ''   2'' = Inr 2"
    by (simp add: atoi_def isspace_def isdigit_def)
  have dec: "decode_header 512
      \<lparr>data_m = map Some ''   2hi'' @ replicate 510 None, body_length_m = 0\<rparr> = Inr (True, ?m)"
    using decode_header_value [OF h v, of 512] by simp
  have w: "ChatRoom_join 3 World_init = \<lparr>room_m = \<lparr>participants_m = [3], recent_msgs_m = []\<rparr>,
      sessions = (\<lambda>p. ChatSession_new)\<rparr>"
    by (simp add: ChatRoom_join_def World_init_def set_insert_def)
  have c: "ChatMessage_copy ?m = \<lparr>data_m = replicate 516 None, body_length_m = 2\<rparr>"
    by (simp add: ChatMessage_copy_def)
  have "write_msgs_m (sessions (ChatRoom_deliver ?m (ChatRoom_join 3 World_init)) 3)
      = [ChatMessage_copy ?m]"
    unfolding w
    by (simp add: sessions_ChatRoom_deliver write_msgs_ChatSession_deliver ChatSession_new_def)
  then have q: "write_msgs_m (sessions (ChatRoom_deliver ?m (ChatRoom_join 3 World_init)) 3)
      = [\<lparr>data_m = replicate 516 None, body_length_m = 2\<rparr>]"
    by (simp only: c)
  have "recent_msgs_m (room_m (ChatRoom_deliver ?m (ChatRoom_join 3 World_init)))
      = [ChatMessage_copy ?m]"
    unfolding w
    by (simp add: room_ChatRoom_deliver pop_excess_drop max_recent_msgs_def)
  then have r: "recent_msgs_m (room_m (ChatRoom_deliver ?m (ChatRoom_join 3 World_init)))
      = [\<lparr>data_m = replicate 516 None, body_length_m = 2\<rparr>]"
    by (simp only: c)
  have b1: "take 2 (body ?m) = map Some ''hi''"
    by (simp add: body_def header_length_def)
  have b2: "take 2 (body \<lparr>data_m = replicate 516 None, body_length_m = 2\<rparr>) = [None, None]"
    by (simp add: body_def header_length_def eval_nat_numeral)
  from dec b1 q r b2 show ?thesis
    by (simp only: simp_thms)
qed

end
